theory Spec2Isabelle
  imports Complex_Main "HOL-Library.Multiset"
begin

section \<open>The robot simulator of \<open>src/frontend/store/robotStore.ts\<close>\<close>

text \<open>
  The simulation kernel lives in the component \<open>Index\<close>: the point-in-rectangle test
  \<open>checkCollision\<close>, the ray march \<open>calculateDistance\<close>, the pose transition
  \<open>moveRobot\<close>, the queue runner \<open>executeCommands\<close>, and \<open>resetRobot\<close>,
  \<open>clearCommands\<close> and \<open>loadProgram\<close>.

  Modelling decisions:
  \<^item> a TypeScript \<open>number\<close> is a \<^typ>\<open>real\<close>, and the values NaN and Infinity are not
    modelled. The arithmetic on the heading (\<open>-\<close>, \<open>+\<close> and \<open>%\<close> in \<open>moveRobot\<close>) is
    the arithmetic of IEEE doubles: every sum is rounded to the nearest double by \<open>fl\<close>,
    and \<open>%\<close> is exact. The arithmetic on coordinates goes through \<open>Math.cos\<close> and
    \<open>Math.sin\<close>, whose results the language leaves to the implementation; there the
    model computes with exact reals;
  \<^item> the React state cells (\<open>position\<close>, \<open>commands\<close>, \<open>isExecuting\<close>,
    \<open>currentEnvironment\<close>, \<open>showLoadModal\<close>) are the fields of one record that every
    handler takes and returns; \<open>Alert.alert\<close> appends to a log kept in the same record;
  \<^item> \<open>executeCommands\<close> has two models: one that runs the whole queue in one step, and
    one where each call closes over the values of the render that created the handler and
    each 200 ms timer is a step of its own, with the runs in flight kept in the state;
  \<^item> the fields \<open>x\<close>, \<open>y\<close> of \<open>Position\<close> are \<open>px\<close>, \<open>py\<close>, those of
    \<open>Obstacle\<close> are \<open>ox\<close>, \<open>oy\<close>, and \<open>id\<close> of \<open>Command\<close> is \<open>cid\<close>, since a
    record field is a constant and would capture the variables of these names;
  \<^item> \<open>screenWidth\<close> comes from the device (\<open>Dimensions.get('window')\<close>) and is a
    parameter of everything that uses \<open>CANVAS_WIDTH\<close>.
\<close>

subsection \<open>Data\<close>

datatype action = Forward | Backward | Left | Right | Stop

record Command =
  cid :: string
  action :: action
  distance :: "real option"

record Position =
  px :: real
  py :: real
  angle :: real

record Obstacle =
  ox :: real
  oy :: real
  width :: real
  height :: real

record Environment =
  name :: string
  obstacles :: "Obstacle list"

text \<open>The payload \<open>program: any\<close> of \<open>loadProgram\<close>, with the three fields it reads.\<close>

record SavedProgram =
  prog_name :: string
  prog_commands :: "Command list"
  prog_environment :: string

record Store =
  position :: Position
  commands :: "Command list"
  isExecuting :: bool
  currentEnvironment :: Environment
  showLoadModal :: bool
  alerts :: "(string \<times> string) list"

subsection \<open>Constants and the catalog of environments\<close>

definition CANVAS_WIDTH :: "real \<Rightarrow> real" where
  "CANVAS_WIDTH screenWidth = max (screenWidth - 32) 300"

definition CANVAS_HEIGHT :: real where
  "CANVAS_HEIGHT = 400"

definition walls :: "real \<Rightarrow> Obstacle list" where
  "walls screenWidth =
     [\<lparr>ox = 0, oy = 0, width = CANVAS_WIDTH screenWidth, height = 5\<rparr>,
      \<lparr>ox = 0, oy = CANVAS_HEIGHT - 5, width = CANVAS_WIDTH screenWidth, height = 5\<rparr>,
      \<lparr>ox = 0, oy = 0, width = 5, height = CANVAS_HEIGHT\<rparr>,
      \<lparr>ox = CANVAS_WIDTH screenWidth - 5, oy = 0, width = 5, height = CANVAS_HEIGHT\<rparr>]"

definition ENVIRONMENTS :: "real \<Rightarrow> Environment list" where
  "ENVIRONMENTS screenWidth =
     [\<lparr>name = ''Open Space'', obstacles = walls screenWidth\<rparr>,
      \<lparr>name = ''Simple Maze'', obstacles = walls screenWidth @
         [\<lparr>ox = 100, oy = 100, width = 150, height = 20\<rparr>,
          \<lparr>ox = 250, oy = 200, width = 20, height = 150\<rparr>]\<rparr>,
      \<lparr>name = ''Obstacle Course'', obstacles = walls screenWidth @
         [\<lparr>ox = 80, oy = 80, width = 40, height = 40\<rparr>,
          \<lparr>ox = 200, oy = 150, width = 60, height = 30\<rparr>,
          \<lparr>ox = 150, oy = 280, width = 50, height = 50\<rparr>]\<rparr>]"

subsection \<open>The remainder operator of JavaScript\<close>

text \<open>
  \<open>a % n\<close> keeps the sign of the dividend: it is \<open>a - n * trunc (a / n)\<close>, where
  \<open>trunc\<close> rounds towards zero.
\<close>

definition trunc :: "real \<Rightarrow> int" where
  "trunc r = (if 0 \<le> r then \<lfloor>r\<rfloor> else \<lceil>r\<rceil>)"

definition js_rem :: "real \<Rightarrow> real \<Rightarrow> real" where
  "js_rem a n = a - n * of_int (trunc (a / n))"

subsection \<open>Rounding to a double\<close>

text \<open>
  A double has a significand of 53 bits: in the binade \<open>2^e \<le> |x| < 2^(e + 1)\<close> the
  doubles are the multiples of \<open>2^(e - 52)\<close>, and below \<open>2^(-1022)\<close> the multiples of
  \<open>2^(-1074)\<close>. The result of \<open>+\<close> and \<open>-\<close> is the exact result rounded to the
  nearest double, a tie going to the even significand. The overflow to Infinity above
  the largest double is not modelled.
\<close>

definition ulp :: "real \<Rightarrow> real" where
  "ulp x = 2 powi (max \<lfloor>log 2 \<bar>x\<bar>\<rfloor> (- 1022) - 52)"

definition roundTiesToEven :: "real \<Rightarrow> int" where
  "roundTiesToEven r =
     (if r - of_int \<lfloor>r\<rfloor> < 1 / 2 then \<lfloor>r\<rfloor>
      else if 1 / 2 < r - of_int \<lfloor>r\<rfloor> then \<lfloor>r\<rfloor> + 1
      else if even \<lfloor>r\<rfloor> then \<lfloor>r\<rfloor> else \<lfloor>r\<rfloor> + 1)"

definition fl :: "real \<Rightarrow> real" where
  "fl x = (if x = 0 then 0 else of_int (roundTiesToEven (x / ulp x)) * ulp x)"

subsection \<open>Collision test\<close>

text \<open>The \<open>for\<close> loop of \<open>checkCollision\<close>, returning at the first obstacle that holds the point.\<close>

fun checkCollision_loop :: "Obstacle list \<Rightarrow> real \<Rightarrow> real \<Rightarrow> bool" where
  "checkCollision_loop [] newX newY = False"
| "checkCollision_loop (obstacle # rest) newX newY =
     (if newX \<ge> ox obstacle \<and> newX \<le> ox obstacle + width obstacle \<and>
         newY \<ge> oy obstacle \<and> newY \<le> oy obstacle + height obstacle
      then True
      else checkCollision_loop rest newX newY)"

definition checkCollision :: "Environment \<Rightarrow> real \<Rightarrow> real \<Rightarrow> bool" where
  "checkCollision currentEnv newX newY = checkCollision_loop (obstacles currentEnv) newX newY"

subsection \<open>Range sensor\<close>

definition step :: real where
  "step = 5"

definition maxDistance :: real where
  "maxDistance = 200"

text \<open>
  The \<open>while\<close> loop of \<open>calculateDistance\<close>; its state is \<open>distance\<close> (here \<open>dst\<close>), \<open>testX\<close> and
  \<open>testY\<close>, and \<open>break\<close> leaves it with the distance reached so far.
\<close>

function calculateDistance_loop ::
  "Environment \<Rightarrow> real \<Rightarrow> real \<Rightarrow> real \<Rightarrow> real \<Rightarrow> real" where
  "calculateDistance_loop env ang dst testX testY =
     (if dst < maxDistance then
        (let testX' = testX + cos ((ang * pi) / 180) * step;
             testY' = testY + sin ((ang * pi) / 180) * step
         in if checkCollision env testX' testY' then dst
            else calculateDistance_loop env ang (dst + step) testX' testY')
      else dst)"
  by pat_completeness auto
termination
proof (relation "measure (\<lambda>(env, ang, dst, testX, testY). nat \<lceil>maxDistance - dst\<rceil>)")
  show "wf (measure (\<lambda>(env, ang, dst, testX, testY). nat \<lceil>maxDistance - dst\<rceil>))"
    by simp
next
  fix env :: Environment and ang dst testX testY x xa :: real
  assume "dst < maxDistance"
  then have "0 < \<lceil>maxDistance - dst\<rceil>"
    by simp
  moreover have "\<lceil>maxDistance - (dst + step)\<rceil> = \<lceil>maxDistance - dst\<rceil> - 5"
  proof -
    have "maxDistance - (dst + step) = (maxDistance - dst) - of_int 5"
      by (simp add: step_def)
    then show ?thesis
      by (simp only: ceiling_diff_of_int)
  qed
  ultimately show "((env, ang, dst + step, x, xa), (env, ang, dst, testX, testY))
      \<in> measure (\<lambda>(env, ang, dst, testX, testY). nat \<lceil>maxDistance - dst\<rceil>)"
    by simp
qed

declare calculateDistance_loop.simps [simp del]

definition calculateDistance :: "Environment \<Rightarrow> real \<Rightarrow> real \<Rightarrow> real \<Rightarrow> real" where
  "calculateDistance env x y ang = min (calculateDistance_loop env ang 0 x y) maxDistance"

subsection \<open>Motion\<close>

text \<open>
  The updater that \<open>moveRobot\<close> hands to \<open>setPosition\<close>; \<open>'stop'\<close> matches no case.
  \<open>prev.angle - 15 + 360\<close> is two operations, each rounded.
\<close>

definition moveDistance :: real where
  "moveDistance = 5"

fun moveRobot_update :: "Environment \<Rightarrow> action \<Rightarrow> Position \<Rightarrow> Position" where
  "moveRobot_update env Forward prev =
     (let newX = px prev + cos ((angle prev * pi) / 180) * moveDistance;
          newY = py prev + sin ((angle prev * pi) / 180) * moveDistance
      in if \<not> checkCollision env newX newY then prev\<lparr>px := newX, py := newY\<rparr> else prev)"
| "moveRobot_update env Backward prev =
     (let backX = px prev - cos ((angle prev * pi) / 180) * moveDistance;
          backY = py prev - sin ((angle prev * pi) / 180) * moveDistance
      in if \<not> checkCollision env backX backY then prev\<lparr>px := backX, py := backY\<rparr> else prev)"
| "moveRobot_update env Left prev =
     prev\<lparr>angle := js_rem (fl (fl (angle prev - 15) + 360)) 360\<rparr>"
| "moveRobot_update env Right prev = prev\<lparr>angle := js_rem (fl (angle prev + 15)) 360\<rparr>"
| "moveRobot_update env Stop prev = prev"

definition moveRobot :: "action \<Rightarrow> Store \<Rightarrow> Store" where
  "moveRobot a s = s\<lparr>position := moveRobot_update (currentEnvironment s) a (position s)\<rparr>"

subsection \<open>Queue, reset and load\<close>

text \<open>
  \<open>executeCommands\<close>: the guard, then \<open>moveRobot\<close> on every entry of the queue in
  order, between \<open>setIsExecuting(true)\<close> and \<open>setIsExecuting(false)\<close>.
\<close>

definition executeCommands :: "Store \<Rightarrow> Store" where
  "executeCommands s =
     (if length (commands s) = 0 \<or> isExecuting s then s
      else (foldl (\<lambda>st command. moveRobot (action command) st)
              (s\<lparr>isExecuting := True\<rparr>) (commands s))\<lparr>isExecuting := False\<rparr>)"

definition clearCommands :: "Store \<Rightarrow> Store" where
  "clearCommands s = s\<lparr>commands := [], isExecuting := False\<rparr>"

definition resetRobot :: "real \<Rightarrow> Store \<Rightarrow> Store" where
  "resetRobot screenWidth s =
     s\<lparr>position := \<lparr>px = CANVAS_WIDTH screenWidth / 2, py = CANVAS_HEIGHT / 2, angle = 0\<rparr>,
       isExecuting := False\<rparr>"

definition loadProgram :: "real \<Rightarrow> SavedProgram \<Rightarrow> Store \<Rightarrow> Store" where
  "loadProgram screenWidth program s =
     (let s1 = s\<lparr>commands := prog_commands program\<rparr>;
          env = find (\<lambda>e. name e = prog_environment program) (ENVIRONMENTS screenWidth);
          s2 = (case env of Some e \<Rightarrow> s1\<lparr>currentEnvironment := e\<rparr> | None \<Rightarrow> s1);
          s3 = s2\<lparr>showLoadModal := False\<rparr>;
          s4 = resetRobot screenWidth s3
      in s4\<lparr>alerts := alerts s4 @ [(''Success'', ''Loaded program: '' @ prog_name program)]\<rparr>)"

subsection \<open>Renders, timers and runs in flight\<close>

text \<open>
  The definitions above take each handler as one step from state to state. Two things in
  \<open>executeCommands\<close> are finer than that. The constants \<open>commands\<close>, \<open>isExecuting\<close> and
  \<open>currentEnvironment\<close> that a handler reads are those of the render that created it: a
  setter changes the state cell, and only the handlers of the next render see the new
  value. And between two commands the \<open>async\<close> function waits for a timer, so that a
  call is in flight from its first \<open>setTimeout\<close> until its last timer has fired.

  A \<open>Session\<close> holds the state cells, the calls of \<open>executeCommands\<close> in flight (for
  each one the handle of the timer it waits for, the commands it still has to apply and
  the environment its \<open>moveRobot\<close> closed over), the handle in \<open>executionRef.current\<close>
  and the next handle that \<open>setTimeout\<close> will return. Handles are positive numbers, so
  the test \<open>if (executionRef.current)\<close> is the test that a timer has been set. Every
  handler takes the render it belongs to as the \<open>Store\<close> of the values it closed over.
\<close>

record Run =
  timer :: nat
  todo :: "Command list"
  run_env :: Environment

record Session =
  cells :: Store
  runs :: "Run list"
  executionRef :: "nat option"
  timers :: nat

text \<open>
  A call of \<open>executeCommands\<close> up to its first \<open>await\<close>: the guard on the values of the
  render, \<open>setIsExecuting(true)\<close>, and the timer of the first command.
\<close>

definition executeCommands_call :: "Store \<Rightarrow> Session \<Rightarrow> Session" where
  "executeCommands_call render ss =
     (if length (commands render) = 0 \<or> isExecuting render then ss
      else ss\<lparr>cells := (cells ss)\<lparr>isExecuting := True\<rparr>,
              runs := runs ss @
                [\<lparr>timer = timers ss, todo = commands render,
                  run_env = currentEnvironment render\<rparr>],
              executionRef := Some (timers ss),
              timers := timers ss + 1\<rparr>)"

text \<open>
  The timer \<open>t\<close> fires: the call that waits for it applies its command with
  \<open>moveRobot\<close> (the updater runs on the position of the moment), and either sets the
  timer of its next command or, after the last one, ends with \<open>setIsExecuting(false)\<close>.
  A timer that no call waits for has been cleared, or has fired before.
\<close>

definition timeout_fires :: "nat \<Rightarrow> Session \<Rightarrow> Session" where
  "timeout_fires t ss =
     (case find (\<lambda>r. timer r = t) (runs ss) of
        None \<Rightarrow> ss
      | Some r \<Rightarrow>
          (case todo r of
             [] \<Rightarrow> ss
           | command # rest \<Rightarrow>
               (let moved = (cells ss)\<lparr>position :=
                      moveRobot_update (run_env r) (action command) (position (cells ss))\<rparr>;
                    others = filter (\<lambda>r'. timer r' \<noteq> t) (runs ss)
                in if rest = []
                   then ss\<lparr>cells := moved\<lparr>isExecuting := False\<rparr>, runs := others\<rparr>
                   else ss\<lparr>cells := moved,
                           runs := others @ [\<lparr>timer = timers ss, todo = rest, run_env = run_env r\<rparr>],
                           executionRef := Some (timers ss),
                           timers := timers ss + 1\<rparr>)))"

text \<open>
  \<open>clearTimeout(executionRef.current)\<close>: the call that waits for that timer never
  resumes.
\<close>

definition clearTimeout :: "nat option \<Rightarrow> Run list \<Rightarrow> Run list" where
  "clearTimeout ref rs =
     (case ref of None \<Rightarrow> rs | Some t \<Rightarrow> filter (\<lambda>r. timer r \<noteq> t) rs)"

definition resetRobot_call :: "real \<Rightarrow> Session \<Rightarrow> Session" where
  "resetRobot_call screenWidth ss =
     ss\<lparr>runs := clearTimeout (executionRef ss) (runs ss),
        cells := resetRobot screenWidth (cells ss)\<rparr>"

definition clearCommands_call :: "Session \<Rightarrow> Session" where
  "clearCommands_call ss =
     ss\<lparr>runs := clearTimeout (executionRef ss) (runs ss),
        cells := clearCommands (cells ss)\<rparr>"

text \<open>\<open>loadProgram\<close> calls \<open>resetRobot\<close>, and with it \<open>clearTimeout\<close>.\<close>

definition loadProgram_call :: "real \<Rightarrow> SavedProgram \<Rightarrow> Session \<Rightarrow> Session" where
  "loadProgram_call screenWidth program ss =
     ss\<lparr>runs := clearTimeout (executionRef ss) (runs ss),
        cells := loadProgram screenWidth program (cells ss)\<rparr>"

text \<open>
  The button of an environment: \<open>setCurrentEnvironment(env); resetRobot()\<close>. And
  \<open>addCommand\<close>, which appends to the queue of its render.
\<close>

definition selectEnvironment_call :: "real \<Rightarrow> Environment \<Rightarrow> Session \<Rightarrow> Session" where
  "selectEnvironment_call screenWidth env ss =
     resetRobot_call screenWidth (ss\<lparr>cells := (cells ss)\<lparr>currentEnvironment := env\<rparr>\<rparr>)"

definition addCommand_call :: "Store \<Rightarrow> Command \<Rightarrow> Session \<Rightarrow> Session" where
  "addCommand_call render newCommand ss =
     ss\<lparr>cells := (cells ss)\<lparr>commands := commands render @ [newCommand]\<rparr>\<rparr>"

text \<open>The timers of the list fire one after the other.\<close>

fun fire :: "nat list \<Rightarrow> Session \<Rightarrow> Session" where
  "fire [] ss = ss"
| "fire (t # ts) ss = fire ts (timeout_fires t ss)"

text \<open>
  What a session can come to when every handler that is called belongs to the render of
  the current state.
\<close>

inductive fresh_renders :: "Session \<Rightarrow> bool" where
  start: "\<not> isExecuting s \<Longrightarrow>
      fresh_renders \<lparr>cells = s, runs = [], executionRef = None, timers = 1\<rparr>"
| execute: "fresh_renders ss \<Longrightarrow> fresh_renders (executeCommands_call (cells ss) ss)"
| timeout: "fresh_renders ss \<Longrightarrow> fresh_renders (timeout_fires t ss)"
| reset: "fresh_renders ss \<Longrightarrow> fresh_renders (resetRobot_call screenWidth ss)"
| clear: "fresh_renders ss \<Longrightarrow> fresh_renders (clearCommands_call ss)"
| load: "fresh_renders ss \<Longrightarrow> fresh_renders (loadProgram_call screenWidth program ss)"
| select: "fresh_renders ss \<Longrightarrow> fresh_renders (selectEnvironment_call screenWidth env ss)"
| add: "fresh_renders ss \<Longrightarrow> fresh_renders (addCommand_call (cells ss) newCommand ss)"
| jog: "fresh_renders ss \<Longrightarrow> fresh_renders (ss\<lparr>cells := moveRobot a (cells ss)\<rparr>)"

subsection \<open>Concrete inputs\<close>

text \<open>
  The queue \<open>[forward, forward, left, stop, right]\<close>, and a session on a device of width
  432 (so that \<open>CANVAS_WIDTH\<close> is 400) with the robot at the centre of ``Open Space''.
\<close>

definition demo_queue :: "Command list" where
  "demo_queue =
     [\<lparr>cid = ''1'', action = Forward, distance = None\<rparr>,
      \<lparr>cid = ''2'', action = Forward, distance = None\<rparr>,
      \<lparr>cid = ''3'', action = Left, distance = None\<rparr>,
      \<lparr>cid = ''4'', action = Stop, distance = None\<rparr>,
      \<lparr>cid = ''5'', action = Right, distance = None\<rparr>]"

definition demo_store :: Store where
  "demo_store =
     \<lparr>position = \<lparr>px = 200, py = 200, angle = 0\<rparr>,
      commands = demo_queue,
      isExecuting = False,
      currentEnvironment = \<lparr>name = ''Open Space'', obstacles = walls 432\<rparr>,
      showLoadModal = True,
      alerts = []\<rparr>"


definition demo_program :: SavedProgram where
  "demo_program =
     \<lparr>prog_name = ''demo'', prog_commands = [], prog_environment = ''nonexistent''\<rparr>"

text \<open>The double nearest to 0.1, which is \<open>3602879701896397 / 2^55\<close>.\<close>

definition tenth :: real where
  "tenth = 3602879701896397 / 36028797018963968"

definition two_blocks :: Environment where
  "two_blocks = \<lparr>name = ''Two Blocks'', obstacles =
     [\<lparr>ox = 12, oy = 0, width = 10, height = 20\<rparr>, \<lparr>ox = 0, oy = 0, width = 8, height = 20\<rparr>]\<rparr>"

definition two_blocks_swapped :: Environment where
  "two_blocks_swapped = \<lparr>name = ''Two Blocks'', obstacles =
     [\<lparr>ox = 0, oy = 0, width = 8, height = 20\<rparr>, \<lparr>ox = 12, oy = 0, width = 10, height = 20\<rparr>]\<rparr>"

section \<open>Properties\<close>

subsection \<open>Remainder\<close>

lemma trunc_nonneg: "0 \<le> r \<Longrightarrow> trunc r = \<lfloor>r\<rfloor>"
  by (simp add: trunc_def)

lemma js_rem_range:
  assumes "0 \<le> a" "0 < n"
  shows "0 \<le> js_rem a n \<and> js_rem a n < n"
proof -
  define q where "q = \<lfloor>a / n\<rfloor>"
  have q0: "0 \<le> a / n" using assms by simp
  have "of_int q \<le> a / n" and "a / n < of_int q + 1"
    unfolding q_def by linarith+
  then have "of_int q * n \<le> a" and "a < (of_int q + 1) * n"
    using assms(2) by (simp_all add: pos_le_divide_eq pos_divide_less_eq)
  then have "0 \<le> a - n * of_int q \<and> a - n * of_int q < n"
    by (simp add: algebra_simps)
  then show ?thesis
    using q0 by (simp add: js_rem_def trunc_nonneg q_def)
qed

lemma js_rem_shift:
  assumes "0 < n" "0 \<le> r" "r < n" "0 \<le> k"
  shows "js_rem (r + n * of_int k) n = r"
proof -
  have "(r + n * of_int k) / n = r / n + of_int k"
    using assms(1) by (simp add: field_simps)
  moreover have "\<lfloor>r / n\<rfloor> = 0"
    using assms by (simp add: floor_eq_iff)
  moreover have "0 \<le> r / n + of_int k"
    using assms by simp
  ultimately show ?thesis
    by (simp add: js_rem_def trunc_nonneg)
qed

lemma js_rem_congruent: "\<exists>k::int. js_rem a n = a + n * of_int k"
proof
  show "js_rem a n = a + n * of_int (- trunc (a / n))"
    by (simp add: js_rem_def)
qed

lemma js_rem_345: "js_rem 345 360 = 345"
  by (simp add: js_rem_def trunc_def)

lemma js_rem_360: "js_rem 360 360 = 0"
  by (simp add: js_rem_def trunc_def)

subsection \<open>Rounding\<close>

lemma ulp_pos: "0 < ulp x"
  by (simp add: ulp_def)

lemma roundTiesToEven_of_int: "roundTiesToEven (of_int m) = m"
  by (simp add: roundTiesToEven_def)

lemma roundTiesToEven_ge: "of_int (roundTiesToEven r) \<ge> r - 1"
  unfolding roundTiesToEven_def by (auto; linarith)

lemma roundTiesToEven_nonneg: "0 \<le> r \<Longrightarrow> 0 \<le> roundTiesToEven r"
  unfolding roundTiesToEven_def by auto

lemma floor_log2_eq:
  assumes "x \<noteq> 0" "2 powi k \<le> \<bar>x\<bar>" "\<bar>x\<bar> < 2 powi (k + 1)"
  shows "\<lfloor>log 2 \<bar>x\<bar>\<rfloor> = k"
proof -
  have "0 < \<bar>x\<bar>" using assms(1) by simp
  moreover have "(2::real) powr of_int k = 2 powi k" "(2::real) powr of_int (k + 1) = 2 powi (k + 1)"
    by (simp_all add: powr_real_of_int' del: of_int_add)
  ultimately show ?thesis
    using assms(2,3) floor_log_eq_powr_iff [of "\<bar>x\<bar>" 2 k] by simp
qed

lemma ulp_eval:
  assumes "x \<noteq> 0" "2 powi k \<le> \<bar>x\<bar>" "\<bar>x\<bar> < 2 powi (k + 1)" "- 1022 \<le> k"
  shows "ulp x = 2 powi (k - 52)"
  using floor_log2_eq [OF assms(1-3)] assms(4) by (simp add: ulp_def max_def)


lemma fl_nonneg: "0 \<le> x \<Longrightarrow> 0 \<le> fl x"
  using ulp_pos [of x] roundTiesToEven_nonneg [of "x / ulp x"]
  by (simp add: fl_def)

lemma fl_ge: "x - ulp x \<le> fl x"
proof (cases "x = 0")
  case True
  then show ?thesis using ulp_pos [of x] by (simp add: fl_def)
next
  case False
  have "(x / ulp x - 1) * ulp x \<le> of_int (roundTiesToEven (x / ulp x)) * ulp x"
    using roundTiesToEven_ge [of "x / ulp x"] ulp_pos [of x]
    by (intro mult_right_mono) simp_all
  moreover have "(x / ulp x - 1) * ulp x = x - ulp x"
    using ulp_pos [of x] by (simp add: field_simps)
  ultimately show ?thesis
    using False by (simp add: fl_def)
qed

lemma floor_log2_le:
  assumes "x \<noteq> 0" "\<bar>x\<bar> < 2 ^ 53"
  shows "\<lfloor>log 2 \<bar>x\<bar>\<rfloor> \<le> 52"
proof -
  have "\<bar>x\<bar> < 2 powr 53"
    using assms(2) by (simp add: powr_numeral)
  with assms(1) have "log 2 \<bar>x\<bar> < 53"
    by (simp add: log_less_iff)
  then have "\<lfloor>log 2 \<bar>x\<bar>\<rfloor> < 53"
    by (simp add: floor_less_iff)
  then show ?thesis by simp
qed

lemma ulp_le_one:
  assumes "x \<noteq> 0" "\<bar>x\<bar> < 2 ^ 53"
  shows "ulp x \<le> 1"
proof -
  have "max \<lfloor>log 2 \<bar>x\<bar>\<rfloor> (- 1022) - 52 \<le> 0"
    using floor_log2_le [OF assms] by simp
  from power_int_increasing [OF this, of "2::real"] show ?thesis
    by (simp add: ulp_def)
qed

lemma fl_of_int:
  assumes "\<bar>m\<bar> < 2 ^ 53"
  shows "fl (of_int m) = of_int m"
proof (cases "m = 0")
  case True
  then show ?thesis by (simp add: fl_def)
next
  case False
  define x :: real where "x = of_int m"
  define e where "e = \<lfloor>log 2 \<bar>x\<bar>\<rfloor>"
  define k where "k = nat (52 - e)"
  have x0: "x \<noteq> 0" using False by (simp add: x_def)
  have "real_of_int \<bar>m\<bar> < 2 ^ 53"
    using assms by (metis of_int_less_numeral_power_cancel_iff)
  then have xlt: "\<bar>x\<bar> < 2 ^ 53" by (simp add: x_def)
  have "1 \<le> \<bar>m\<bar>" using False by simp
  then have "1 \<le> \<bar>x\<bar>" unfolding x_def by (metis of_int_1_le_iff of_int_abs)
  then have "0 \<le> log 2 \<bar>x\<bar>" by simp
  then have e0: "0 \<le> e" by (simp add: e_def)
  have e52: "e \<le> 52" unfolding e_def by (rule floor_log2_le [OF x0 xlt])
  have "e - 52 = - int k" using e52 by (simp add: k_def)
  then have "ulp x = 2 powi (- int k)"
    using e0 by (simp add: ulp_def e_def [symmetric] max_def)
  then have u: "ulp x = inverse (2 ^ k)"
    by (simp add: power_int_minus)
  have "x / ulp x = x * 2 ^ k"
    by (simp add: u field_simps)
  then have "x / ulp x = of_int (m * 2 ^ k)"
    by (simp add: x_def)
  then have "roundTiesToEven (x / ulp x) = m * 2 ^ k"
    by (simp only: roundTiesToEven_of_int)
  then have "fl x = of_int (m * 2 ^ k) * inverse (2 ^ k)"
    using x0 by (simp add: fl_def u)
  also have "\<dots> = x"
    by (simp add: x_def field_simps)
  finally show ?thesis by (simp add: x_def)
qed

lemma fl_Ints:
  assumes "x \<in> \<int>" "\<bar>x\<bar> < 2 ^ 53"
  shows "fl x = x"
proof -
  from assms(1) obtain m where m: "x = of_int m" by (auto elim: Ints_cases)
  have "real_of_int \<bar>m\<bar> < 2 ^ 53" using assms(2) by (simp add: m)
  then have "\<bar>m\<bar> < 2 ^ 53" by (metis of_int_less_numeral_power_cancel_iff)
  then show ?thesis unfolding m by (rule fl_of_int)
qed

lemma js_rem_Ints: "a \<in> \<int> \<Longrightarrow> n \<in> \<int> \<Longrightarrow> js_rem a n \<in> \<int>"
  by (simp add: js_rem_def)

lemma js_rem_abs:
  assumes "0 < n"
  shows "\<bar>js_rem a n\<bar> < n"
proof (cases "0 \<le> a")
  case True
  define q where "q = \<lfloor>a / n\<rfloor>"
  have q0: "0 \<le> a / n" using True assms by simp
  have "of_int q \<le> a / n" and "a / n < of_int q + 1"
    unfolding q_def by linarith+
  then have "of_int q * n \<le> a" and "a < (of_int q + 1) * n"
    using assms by (simp_all add: pos_le_divide_eq pos_divide_less_eq)
  then have "0 \<le> a - n * of_int q \<and> a - n * of_int q < n"
    by (simp add: algebra_simps)
  then show ?thesis
    using q0 by (simp add: js_rem_def trunc_def q_def)
next
  case False
  define q where "q = \<lceil>a / n\<rceil>"
  have q0: "\<not> 0 \<le> a / n" using False assms by (simp add: zero_le_divide_iff)
  have "a / n \<le> of_int q" and "of_int q - 1 < a / n"
    unfolding q_def by linarith+
  then have "a \<le> of_int q * n" and "(of_int q - 1) * n < a"
    using assms by (simp_all add: pos_divide_le_eq pos_less_divide_eq)
  then have "- n < a - n * of_int q \<and> a - n * of_int q \<le> 0"
    by (simp add: algebra_simps)
  then show ?thesis
    using q0 assms by (simp add: js_rem_def trunc_def q_def)
qed

lemma fl_eval:
  assumes "x \<noteq> 0" "2 powi k \<le> \<bar>x\<bar>" "\<bar>x\<bar> < 2 powi (k + 1)" "- 1022 \<le> k"
  shows "fl x = of_int (roundTiesToEven (x / 2 powi (k - 52))) * 2 powi (k - 52)"
  using assms(1) by (simp add: fl_def ulp_eval [OF assms])

lemma fl_numeral [simp]:
  "numeral n < (2::real) ^ 53 \<Longrightarrow> fl (numeral n) = numeral n"
  "numeral n < (2::real) ^ 53 \<Longrightarrow> fl (- numeral n) = - numeral n"
  by (rule fl_Ints; simp)+

subsection \<open>Collision test\<close>

lemma checkCollision_loop_iff:
  "checkCollision_loop obs x y \<longleftrightarrow>
     (\<exists>b \<in> set obs. ox b \<le> x \<and> x \<le> ox b + width b \<and> oy b \<le> y \<and> y \<le> oy b + height b)"
  by (induction obs) auto

text \<open>
  Claim C3. \<open>checkCollision\<close> is true exactly when some obstacle of the environment holds
  the point within its inclusive bounds, so a point on the boundary of an obstacle is
  blocked; and two environments whose obstacle lists are permutations of each other give
  the same answer.
\<close>

theorem checkCollision_inclusive_bounds:
  "(checkCollision env x y \<longleftrightarrow>
      (\<exists>b \<in> set (obstacles env).
          ox b \<le> x \<and> x \<le> ox b + width b \<and> oy b \<le> y \<and> y \<le> oy b + height b))
   \<and> (mset (obstacles env') = mset (obstacles env) \<longrightarrow>
        checkCollision env' x y = checkCollision env x y)"
proof (intro conjI impI)
  show "checkCollision env x y \<longleftrightarrow>
      (\<exists>b \<in> set (obstacles env).
          ox b \<le> x \<and> x \<le> ox b + width b \<and> oy b \<le> y \<and> y \<le> oy b + height b)"
    unfolding checkCollision_def by (rule checkCollision_loop_iff)
next
  assume "mset (obstacles env') = mset (obstacles env)"
  then have "set (obstacles env') = set (obstacles env)"
    by (rule mset_eq_setD)
  then show "checkCollision env' x y = checkCollision env x y"
    unfolding checkCollision_def checkCollision_loop_iff by simp
qed

text \<open>
  The corner \<open>(22, 20)\<close> of the first block is blocked, whichever of the two blocks is
  scanned first.
\<close>

theorem checkCollision_inclusive_bounds_witness:
  "mset (obstacles two_blocks_swapped) = mset (obstacles two_blocks)
   \<and> checkCollision two_blocks 22 20 \<and> checkCollision two_blocks_swapped 22 20"
  using checkCollision_inclusive_bounds [of two_blocks 22 20 two_blocks_swapped]
  by (simp add: two_blocks_def two_blocks_swapped_def)

subsection \<open>Range sensor\<close>

lemma calculateDistance_loop_ge: "dst \<le> calculateDistance_loop env ang dst testX testY"
proof (induction env ang dst testX testY rule: calculateDistance_loop.induct)
  case (1 env ang dst testX testY)
  show ?case
  proof (cases "dst < maxDistance \<and> \<not> checkCollision env
      (testX + cos ((ang * pi) / 180) * step) (testY + sin ((ang * pi) / 180) * step)")
    case True
    then have "dst + step \<le> calculateDistance_loop env ang (dst + step)
        (testX + cos ((ang * pi) / 180) * step) (testY + sin ((ang * pi) / 180) * step)"
      using "1.IH" by simp
    moreover have "calculateDistance_loop env ang dst testX testY =
        calculateDistance_loop env ang (dst + step)
        (testX + cos ((ang * pi) / 180) * step) (testY + sin ((ang * pi) / 180) * step)"
      using True by (subst calculateDistance_loop.simps) (simp add: Let_def)
    ultimately show ?thesis
      by (simp add: step_def)
  next
    case False
    then have "calculateDistance_loop env ang dst testX testY = dst"
      by (subst calculateDistance_loop.simps) (auto simp: Let_def)
    then show ?thesis by simp
  qed
qed

text \<open>
  After \<open>i\<close> rounds the loop holds the distance \<open>5 i\<close> and the probe point
  \<open>origin + i * 5 * (cos, sin)\<close>; when none of the probes \<open>i + 1, ..., 40\<close> is blocked it
  runs on to 200.
\<close>

lemma calculateDistance_loop_free:
  assumes free: "\<forall>k \<in> {1..40::nat}. \<not> checkCollision env
      (x + real k * (cos ((ang * pi) / 180) * 5)) (y + real k * (sin ((ang * pi) / 180) * 5))"
  shows "i \<le> 40 \<Longrightarrow> calculateDistance_loop env ang (5 * real i)
      (x + real i * (cos ((ang * pi) / 180) * 5)) (y + real i * (sin ((ang * pi) / 180) * 5)) = 200"
proof (induction "40 - i" arbitrary: i)
  case 0
  then have "i = 40" by simp
  then show ?case
    by (subst calculateDistance_loop.simps) (simp add: maxDistance_def)
next
  case (Suc n)
  then have lt: "i < 40" by simp
  let ?c = "cos ((ang * pi) / 180)" and ?s = "sin ((ang * pi) / 180)"
  have nx: "x + real i * (?c * 5) + ?c * step = x + real (Suc i) * (?c * 5)"
    by (simp add: step_def algebra_simps)
  have ny: "y + real i * (?s * 5) + ?s * step = y + real (Suc i) * (?s * 5)"
    by (simp add: step_def algebra_simps)
  have nd: "5 * real i + step = 5 * real (Suc i)"
    by (simp add: step_def)
  have "Suc i \<in> {1..40}" using lt by simp
  with free have nb: "\<not> checkCollision env (x + real (Suc i) * (?c * 5)) (y + real (Suc i) * (?s * 5))"
    by blast
  have go: "5 * real i < maxDistance" using lt by (simp add: maxDistance_def)
  have "calculateDistance_loop env ang (5 * real i) (x + real i * (?c * 5)) (y + real i * (?s * 5))
      = calculateDistance_loop env ang (5 * real (Suc i))
          (x + real (Suc i) * (?c * 5)) (y + real (Suc i) * (?s * 5))"
    by (subst calculateDistance_loop.simps) (simp only: go nb nx ny nd Let_def if_True if_False)
  also have "\<dots> = 200"
    using Suc.hyps(2) lt by (intro Suc.hyps(1)) simp_all
  finally show ?case .
qed

text \<open>
  Claim C4. For every origin, heading and environment, \<open>calculateDistance\<close> (step 5,
  range 200) returns a value in \<open>[0, 200]\<close>, and returns exactly 200 when none of the
  probe points \<open>origin + k * 5 * (cos, sin)\<close>, \<open>k = 1, ..., 40\<close>, is blocked.
\<close>

theorem calculateDistance_range:
  "0 \<le> calculateDistance env x y ang \<and> calculateDistance env x y ang \<le> 200
   \<and> ((\<forall>k \<in> {1..40::nat}. \<not> checkCollision env
          (x + real k * (cos ((ang * pi) / 180) * 5)) (y + real k * (sin ((ang * pi) / 180) * 5)))
        \<longrightarrow> calculateDistance env x y ang = 200)"
proof (intro conjI impI)
  show "0 \<le> calculateDistance env x y ang"
    using calculateDistance_loop_ge [of 0 env ang x y]
    by (simp add: calculateDistance_def maxDistance_def)
  show "calculateDistance env x y ang \<le> 200"
    by (simp add: calculateDistance_def maxDistance_def)
  assume "\<forall>k \<in> {1..40::nat}. \<not> checkCollision env
          (x + real k * (cos ((ang * pi) / 180) * 5)) (y + real k * (sin ((ang * pi) / 180) * 5))"
  from calculateDistance_loop_free [OF this, of 0]
  show "calculateDistance env x y ang = 200"
    by (simp add: calculateDistance_def maxDistance_def)
qed

text \<open>From \<open>(30, 100)\<close> at heading 0 the ray passes above both blocks.\<close>

theorem calculateDistance_range_witness:
  "calculateDistance two_blocks 30 100 0 = 200"
  using calculateDistance_range [of two_blocks 30 100 0]
  by (simp add: checkCollision_def two_blocks_def)

subsection \<open>Motion\<close>

text \<open>
  Claim C2. For every pose and environment, \<open>forward\<close> leaves the pose unchanged (same
  \<open>x\<close>, \<open>y\<close> and heading) when the candidate position, the pose moved by 5 along the
  heading, is blocked; and so does \<open>backward\<close> with the reversed vector.
\<close>

theorem moveRobot_blocked_identity:
  "(checkCollision env (px p + cos ((angle p * pi) / 180) * 5) (py p + sin ((angle p * pi) / 180) * 5)
      \<longrightarrow> moveRobot_update env Forward p = p)
   \<and> (checkCollision env (px p - cos ((angle p * pi) / 180) * 5) (py p - sin ((angle p * pi) / 180) * 5)
      \<longrightarrow> moveRobot_update env Backward p = p)"
  by (simp add: Let_def moveDistance_def)

text \<open>
  Between the two blocks at \<open>(10, 10)\<close>, heading 0: the point ahead \<open>(15, 10)\<close> and the
  point behind \<open>(5, 10)\<close> are both blocked.
\<close>

theorem moveRobot_blocked_identity_witness:
  "checkCollision two_blocks 15 10 \<and> checkCollision two_blocks 5 10
   \<and> moveRobot_update two_blocks Forward \<lparr>px = 10, py = 10, angle = 0\<rparr>
       = \<lparr>px = 10, py = 10, angle = 0\<rparr>
   \<and> moveRobot_update two_blocks Backward \<lparr>px = 10, py = 10, angle = 0\<rparr>
       = \<lparr>px = 10, py = 10, angle = 0\<rparr>"
  using moveRobot_blocked_identity [of two_blocks "\<lparr>px = 10, py = 10, angle = 0\<rparr>"]
  by (simp add: checkCollision_def two_blocks_def)

lemma turn_left_exact:
  assumes "h \<in> \<int>" "\<bar>h\<bar> \<le> 2 ^ 52"
  shows "fl (fl (h - 15) + 360) = h - 15 + 360"
proof -
  have "h - 15 \<in> \<int>" using assms(1) by simp
  moreover have "\<bar>h - 15\<bar> < 2 ^ 53" using assms(2) by simp
  ultimately have 1: "fl (h - 15) = h - 15" by (rule fl_Ints)
  have "h - 15 + 360 \<in> \<int>" using assms(1) by simp
  moreover have "\<bar>h - 15 + 360\<bar> < 2 ^ 53" using assms(2) by simp
  ultimately have "fl (h - 15 + 360) = h - 15 + 360" by (rule fl_Ints)
  with 1 show ?thesis by simp
qed

lemma turn_right_exact:
  assumes "a \<in> \<int>" "\<bar>a\<bar> < 360"
  shows "fl (a + 15) = a + 15"
proof -
  have "a + 15 \<in> \<int>" using assms(1) by simp
  moreover have "\<bar>a + 15\<bar> < 2 ^ 53" using assms(2) by simp
  ultimately show ?thesis by (rule fl_Ints)
qed

lemma left_right_real:
  "\<exists>k::int. js_rem (js_rem (h - 15 + 360) 360 + 15) 360 = h + 360 * of_int k"
proof -
  obtain k1 :: int where k1: "js_rem (h - 15 + 360) 360 = (h - 15 + 360) + 360 * of_int k1"
    using js_rem_congruent by blast
  obtain k2 :: int where k2: "js_rem (js_rem (h - 15 + 360) 360 + 15) 360
      = (js_rem (h - 15 + 360) 360 + 15) + 360 * of_int k2"
    using js_rem_congruent by blast
  have "js_rem (js_rem (h - 15 + 360) 360 + 15) 360 = h + 360 * of_int (k1 + k2 + 1)"
    using k1 k2 by simp
  then show ?thesis by (rule exI)
qed

lemma left_right_real_exact:
  assumes h: "0 \<le> h \<and> h < 360"
  shows "js_rem (js_rem (h - 15 + 360) 360 + 15) 360 = h"
proof (cases "h < 15")
  case True
  have e1: "h - 15 + 360 = (h + 345) + 360 * of_int 0" by simp
  have l: "js_rem (h - 15 + 360) 360 = h + 345"
    unfolding e1 using h True by (intro js_rem_shift) simp_all
  have e2: "h + 345 + 15 = h + 360 * of_int 1" by simp
  show ?thesis
    unfolding l e2 using h by (intro js_rem_shift) simp_all
next
  case False
  have e1: "h - 15 + 360 = (h - 15) + 360 * of_int 1" by simp
  have l: "js_rem (h - 15 + 360) 360 = h - 15"
    unfolding e1 using h False by (intro js_rem_shift) simp_all
  have e2: "h - 15 + 15 = h + 360 * of_int 0" by simp
  show ?thesis
    unfolding l e2 using h by (intro js_rem_shift) simp_all
qed

lemma left_right_angle:
  assumes "angle p \<in> \<int>" "\<bar>angle p\<bar> \<le> 2 ^ 52"
  shows "angle (moveRobot_update env' Right (moveRobot_update env Left p))
     = js_rem (js_rem (angle p - 15 + 360) 360 + 15) 360"
proof -
  have "angle p - 15 + 360 \<in> \<int>" using assms(1) by simp
  then have "js_rem (angle p - 15 + 360) 360 \<in> \<int>"
    by (intro js_rem_Ints) simp_all
  moreover have "\<bar>js_rem (angle p - 15 + 360) 360\<bar> < 360"
    by (rule js_rem_abs) simp
  ultimately have "fl (js_rem (angle p - 15 + 360) 360 + 15) = js_rem (angle p - 15 + 360) 360 + 15"
    by (rule turn_right_exact)
  then show ?thesis
    by (simp add: turn_left_exact [OF assms])
qed

lemma fl_tenth_1: "fl (tenth - 15) = - (8387954305977549 / 562949953421312)"
  by (subst fl_eval [where k = 3]) (simp_all add: tenth_def roundTiesToEven_def)

lemma fl_tenth_2:
  "fl (194274028925694771 / 562949953421312) = 3035531701963981 / 8796093022208"
  by (subst fl_eval [where k = 8]) (simp_all add: roundTiesToEven_def)

lemma fl_tenth_3:
  "fl (3167473097297101 / 8796093022208) = 3167473097297101 / 8796093022208"
  by (subst fl_eval [where k = 8]) (simp_all add: roundTiesToEven_def)

lemma js_rem_tenth_1:
  "js_rem (3035531701963981 / 8796093022208) 360 = 3035531701963981 / 8796093022208"
  by (simp add: js_rem_def trunc_def)

lemma js_rem_tenth_2:
  "js_rem (3167473097297101 / 8796093022208) 360 = 879609302221 / 8796093022208"
  by (simp add: js_rem_def trunc_def)

lemma left_right_tenth:
  "js_rem (fl (js_rem (fl (fl (tenth - 15) + 360)) 360 + 15)) 360
     = 879609302221 / 8796093022208"
proof -
  have a1: "fl (tenth - 15) + 360 = 194274028925694771 / 562949953421312"
    by (simp add: fl_tenth_1)
  have a2: "js_rem (3035531701963981 / 8796093022208) 360 + 15
      = 3167473097297101 / 8796093022208"
    by (simp add: js_rem_tenth_1)
  show ?thesis
    unfolding a1 fl_tenth_2 a2 fl_tenth_3 js_rem_tenth_2 ..
qed

text \<open>
  Claim C5, as stated, fails: from the heading 0.1 (the double \<open>tenth\<close>, which lies in
  \<open>[0, 360)\<close>) the turn to the left gives 345.1 rounded to a multiple of \<open>2^(-44)\<close>, and
  the turn back gives \<open>0.10000000000002274\<close>, which is \<open>819 / 2^55\<close> above the heading
  at the start: neither that heading nor congruent to it modulo 360.
\<close>

theorem left_then_right_rounding_counterexample:
  "0 \<le> tenth \<and> tenth < 360
   \<and> angle (moveRobot_update two_blocks Right
        (moveRobot_update two_blocks Left \<lparr>px = 10, py = 10, angle = tenth\<rparr>))
       = 879609302221 / 8796093022208
   \<and> 879609302221 / 8796093022208 - tenth = 819 / 36028797018963968"
proof -
  have "angle (moveRobot_update two_blocks Right
        (moveRobot_update two_blocks Left \<lparr>px = 10, py = 10, angle = tenth\<rparr>))
      = js_rem (fl (js_rem (fl (fl (tenth - 15) + 360)) 360 + 15)) 360"
    by simp
  then show ?thesis
    by (simp add: left_right_tenth) (simp add: tenth_def)
qed

text \<open>
  Claim C5, amended. From every pose, \<open>left\<close> and then \<open>right\<close> leave \<open>x\<close> and \<open>y\<close>
  unchanged after each of the two steps. From a heading that is a whole number of
  degrees, of magnitude at most \<open>2^52\<close>, they bring the heading back to a value congruent
  to the original one modulo 360; from a whole number of degrees in \<open>[0, 360)\<close>, and so
  from every multiple of 15 there, to the original heading itself.
\<close>

theorem left_then_right:
  "px (moveRobot_update env Left p) = px p \<and> py (moveRobot_update env Left p) = py p
   \<and> px (moveRobot_update env' Right (moveRobot_update env Left p)) = px p
   \<and> py (moveRobot_update env' Right (moveRobot_update env Left p)) = py p
   \<and> (angle p \<in> \<int> \<and> \<bar>angle p\<bar> \<le> 2 ^ 52 \<longrightarrow>
        (\<exists>k::int. angle (moveRobot_update env' Right (moveRobot_update env Left p))
          = angle p + 360 * of_int k))
   \<and> (angle p \<in> \<int> \<and> 0 \<le> angle p \<and> angle p < 360 \<longrightarrow>
        angle (moveRobot_update env' Right (moveRobot_update env Left p)) = angle p)"
proof -
  have pos: "px (moveRobot_update env Left p) = px p \<and> py (moveRobot_update env Left p) = py p
     \<and> px (moveRobot_update env' Right (moveRobot_update env Left p)) = px p
     \<and> py (moveRobot_update env' Right (moveRobot_update env Left p)) = py p"
    by simp
  have cong: "\<exists>k::int. angle (moveRobot_update env' Right (moveRobot_update env Left p))
          = angle p + 360 * of_int k"
    if "angle p \<in> \<int> \<and> \<bar>angle p\<bar> \<le> 2 ^ 52"
    using that left_right_real [of "angle p"] by (simp only: left_right_angle)
  have exact: "angle (moveRobot_update env' Right (moveRobot_update env Left p)) = angle p"
    if h: "angle p \<in> \<int> \<and> 0 \<le> angle p \<and> angle p < 360"
  proof -
    have "\<bar>angle p\<bar> \<le> 2 ^ 52" using h by simp
    with h have "angle (moveRobot_update env' Right (moveRobot_update env Left p))
        = js_rem (js_rem (angle p - 15 + 360) 360 + 15) 360"
      by (intro left_right_angle) simp_all
    also have "\<dots> = angle p"
      using h by (intro left_right_real_exact) simp
    finally show ?thesis .
  qed
  show ?thesis
    using pos cong exact by blast
qed

text \<open>From heading 0 the turn to the left gives 345, and the turn to the right 0 again.\<close>

theorem left_then_right_witness:
  "(0::real) \<in> \<int>
   \<and> angle (moveRobot_update two_blocks Left \<lparr>px = 10, py = 10, angle = 0\<rparr>) = 345
   \<and> moveRobot_update two_blocks Right
        (moveRobot_update two_blocks Left \<lparr>px = 10, py = 10, angle = 0\<rparr>)
       = \<lparr>px = 10, py = 10, angle = 0\<rparr>"
  using left_then_right [of two_blocks "\<lparr>px = 10, py = 10, angle = 0\<rparr>" two_blocks]
  by (simp add: js_rem_345)

text \<open>
  Claim C9. For each of the five actions, a heading in \<open>[0, 360)\<close> before the step is a
  heading in \<open>[0, 360)\<close> after it.
\<close>

theorem moveRobot_heading_range:
  "0 \<le> angle p \<and> angle p < 360 \<Longrightarrow>
     0 \<le> angle (moveRobot_update env a p) \<and> angle (moveRobot_update env a p) < 360"
proof (cases a)
  case Left
  assume h: "0 \<le> angle p \<and> angle p < 360"
  have "- 16 \<le> fl (angle p - 15)"
  proof (cases "angle p - 15 = 0")
    case True
    then show ?thesis by (simp add: fl_def)
  next
    case False
    moreover have "\<bar>angle p - 15\<bar> < 2 ^ 53" using h by (simp add: abs_less_iff)
    ultimately have "ulp (angle p - 15) \<le> 1" by (rule ulp_le_one)
    with fl_ge [of "angle p - 15"] h show ?thesis by simp
  qed
  then have "0 \<le> fl (angle p - 15) + 360" by simp
  then have "0 \<le> fl (fl (angle p - 15) + 360)" by (rule fl_nonneg)
  from js_rem_range [OF this, of 360] show ?thesis using Left by simp
next
  case Right
  assume "0 \<le> angle p \<and> angle p < 360"
  then have "0 \<le> angle p + 15" by simp
  then have "0 \<le> fl (angle p + 15)" by (rule fl_nonneg)
  from js_rem_range [OF this, of 360] show ?thesis using Right by simp
qed (simp_all add: Let_def)

text \<open>From heading 350 the turn to the right wraps around.\<close>

theorem moveRobot_heading_range_witness:
  "(0::real) \<le> 350 \<and> (350::real) < 360
   \<and> 0 \<le> angle (moveRobot_update two_blocks Right \<lparr>px = 10, py = 10, angle = 350\<rparr>)
   \<and> angle (moveRobot_update two_blocks Right \<lparr>px = 10, py = 10, angle = 350\<rparr>) < 360"
  using moveRobot_heading_range [of "\<lparr>px = 10, py = 10, angle = 350\<rparr>" two_blocks Right]
  by simp

text \<open>
  Claim C10. In every environment, from a pose whose position is not blocked, each of the
  five actions gives a pose whose position is not blocked.
\<close>

theorem moveRobot_preserves_free:
  "\<not> checkCollision env (px p) (py p) \<Longrightarrow>
   \<not> checkCollision env (px (moveRobot_update env a p)) (py (moveRobot_update env a p))"
  by (cases a) (simp_all add: Let_def)

text \<open>The centre of ``Open Space'' is free, and so is the point one step ahead.\<close>

theorem moveRobot_preserves_free_witness:
  "\<not> checkCollision (currentEnvironment demo_store) 200 200
   \<and> moveRobot_update (currentEnvironment demo_store) Forward (position demo_store)
       = \<lparr>px = 205, py = 200, angle = 0\<rparr>
   \<and> \<not> checkCollision (currentEnvironment demo_store) 205 200"
proof -
  have free: "\<not> checkCollision (currentEnvironment demo_store)
      (px (position demo_store)) (py (position demo_store))"
    by (simp add: demo_store_def checkCollision_def walls_def CANVAS_WIDTH_def CANVAS_HEIGHT_def)
  have moved: "moveRobot_update (currentEnvironment demo_store) Forward (position demo_store)
      = \<lparr>px = 205, py = 200, angle = 0\<rparr>"
    by (simp add: demo_store_def checkCollision_def walls_def CANVAS_WIDTH_def CANVAS_HEIGHT_def
        moveDistance_def Let_def)
  from moveRobot_preserves_free [OF free, of Forward] free moved show ?thesis
    by (simp add: demo_store_def)
qed

subsection \<open>Queue\<close>

lemma foldl_moveRobot:
  "foldl (\<lambda>st command. moveRobot (action command) st) s cs =
   s\<lparr>position := foldl (\<lambda>p command. moveRobot_update (currentEnvironment s) (action command) p)
       (position s) cs\<rparr>"
  by (induction cs arbitrary: s) (simp_all add: moveRobot_def)

text \<open>
  Claim C1, as stated, fails: on the queue \<open>[forward, forward, left, stop, right]\<close> the
  run ends at heading 0, the trailing \<open>right\<close> having undone the \<open>left\<close>, whereas the
  first three actions alone end at heading 345.
\<close>

theorem executeCommands_stop_counterexample:
  "map action (commands demo_store) = [Forward, Forward, Left, Stop, Right]
   \<and> position (executeCommands demo_store) = \<lparr>px = 210, py = 200, angle = 0\<rparr>
   \<and> position (executeCommands (demo_store\<lparr>commands := take 3 demo_queue\<rparr>))
       = \<lparr>px = 210, py = 200, angle = 345\<rparr>"
  by (simp add: executeCommands_def foldl_moveRobot demo_store_def demo_queue_def
      checkCollision_def walls_def CANVAS_WIDTH_def CANVAS_HEIGHT_def moveDistance_def
      js_rem_345 js_rem_360 Let_def)

lemma foldl_skip_stop:
  "foldl (\<lambda>p command. moveRobot_update env (action command) p) p cs =
   foldl (\<lambda>p command. moveRobot_update env (action command) p) p
     (filter (\<lambda>command. action command \<noteq> Stop) cs)"
  by (induction cs arbitrary: p) simp_all

text \<open>
  Claim C1, amended. \<open>stop\<close> does not halt the run. Started while not executing,
  \<open>executeCommands\<close> processes every queue to its end: an entry \<open>stop\<close> leaves the pose
  as it is and every other entry is applied, in order, so the pose reached is that of
  the queue without its \<open>stop\<close> entries. On \<open>[forward, forward, left, stop, right]\<close>
  the trailing \<open>right\<close> is applied, and the pose reached is that of
  \<open>forward, forward, left, right\<close>.
\<close>

theorem executeCommands_runs_past_stop:
  assumes "\<not> isExecuting s"
  shows "position (executeCommands s) =
      foldl (\<lambda>p command. moveRobot_update (currentEnvironment s) (action command) p)
        (position s) (filter (\<lambda>command. action command \<noteq> Stop) (commands s))
    \<and> (map action (commands s) = [Forward, Forward, Left, Stop, Right] \<longrightarrow>
        position (executeCommands s) =
          moveRobot_update (currentEnvironment s) Right
            (moveRobot_update (currentEnvironment s) Left
              (moveRobot_update (currentEnvironment s) Forward
                (moveRobot_update (currentEnvironment s) Forward (position s)))))"
proof (intro conjI impI)
  have run: "position (executeCommands s) =
      foldl (\<lambda>p command. moveRobot_update (currentEnvironment s) (action command) p)
        (position s) (commands s)"
    using assms by (cases "commands s") (simp_all add: executeCommands_def foldl_moveRobot)
  show "position (executeCommands s) =
      foldl (\<lambda>p command. moveRobot_update (currentEnvironment s) (action command) p)
        (position s) (filter (\<lambda>command. action command \<noteq> Stop) (commands s))"
    unfolding run by (rule foldl_skip_stop)
  assume "map action (commands s) = [Forward, Forward, Left, Stop, Right]"
  then obtain c1 c2 c3 c4 c5 where cs: "commands s = [c1, c2, c3, c4, c5]"
    and a: "action c1 = Forward" "action c2 = Forward" "action c3 = Left"
      "action c4 = Stop" "action c5 = Right"
    by (auto simp: map_eq_Cons_conv)
  show "position (executeCommands s) =
      moveRobot_update (currentEnvironment s) Right
        (moveRobot_update (currentEnvironment s) Left
          (moveRobot_update (currentEnvironment s) Forward
            (moveRobot_update (currentEnvironment s) Forward (position s))))"
    unfolding run by (simp add: cs a del: moveRobot_update.simps(1-4))
qed

text \<open>
  On the session of ``Open Space'': the queue without its \<open>stop\<close> has four entries, and
  the run ends at \<open>(210, 200)\<close> with heading 0.
\<close>

theorem executeCommands_runs_past_stop_witness:
  "\<not> isExecuting demo_store
   \<and> map action (commands demo_store) = [Forward, Forward, Left, Stop, Right]
   \<and> map action (filter (\<lambda>command. action command \<noteq> Stop) (commands demo_store))
       = [Forward, Forward, Left, Right]
   \<and> position (executeCommands demo_store) = \<lparr>px = 210, py = 200, angle = 0\<rparr>"
  using executeCommands_runs_past_stop [of demo_store]
  by (simp add: demo_store_def demo_queue_def
      checkCollision_def walls_def CANVAS_WIDTH_def CANVAS_HEIGHT_def moveDistance_def
      js_rem_345 js_rem_360 Let_def)

subsection \<open>Runs in flight\<close>

text \<open>
  The guard: a call from a render in which \<open>isExecuting\<close> holds, or in which the queue
  is empty, changes nothing: no run is started, and state, runs and timers are as before.
\<close>

lemma executeCommands_guard:
  "isExecuting s \<or> commands s = [] \<Longrightarrow> executeCommands s = s"
  by (auto simp: executeCommands_def)

lemma executeCommands_call_guard:
  "isExecuting render \<or> commands render = [] \<Longrightarrow> executeCommands_call render ss = ss"
  by (auto simp: executeCommands_call_def)

text \<open>
  A single run whose timers fire one after the other applies its commands in order and
  ends with \<open>isExecuting\<close> false.
\<close>

lemma fire_single_run:
  assumes "cs \<noteq> []"
    and "runs ss = [\<lparr>timer = n, todo = cs, run_env = env\<rparr>]"
    and "timers ss = Suc n"
  shows "fire [n ..< n + length cs] ss =
      ss\<lparr>cells := (cells ss)\<lparr>position :=
               foldl (\<lambda>p command. moveRobot_update env (action command) p)
                 (position (cells ss)) cs,
             isExecuting := False\<rparr>,
         runs := [],
         executionRef := (if length cs = 1 then executionRef ss else Some (n + length cs - 1)),
         timers := n + length cs\<rparr>"
  using assms
proof (induction cs arbitrary: ss n)
  case Nil
  then show ?case by simp
next
  case (Cons c cs)
  show ?case
  proof (cases "cs = []")
    case True
    then show ?thesis
      using Cons.prems by (simp add: timeout_fires_def Let_def)
  next
    case False
    define ss' where "ss' = timeout_fires n ss"
    have ss': "ss' = ss\<lparr>cells := (cells ss)\<lparr>position :=
                 moveRobot_update env (action c) (position (cells ss))\<rparr>,
             runs := [\<lparr>timer = Suc n, todo = cs, run_env = env\<rparr>],
             executionRef := Some (Suc n),
             timers := Suc (Suc n)\<rparr>"
      unfolding ss'_def using Cons.prems False by (simp add: timeout_fires_def Let_def)
    have "fire [n ..< n + length (c # cs)] ss = fire [Suc n ..< Suc n + length cs] ss'"
      by (subst upt_conv_Cons) (simp_all add: ss'_def)
    also have "\<dots> = ss'\<lparr>cells := (cells ss')\<lparr>position :=
               foldl (\<lambda>p command. moveRobot_update env (action command) p)
                 (position (cells ss')) cs,
             isExecuting := False\<rparr>,
         runs := [],
         executionRef := (if length cs = 1 then executionRef ss' else Some (Suc n + length cs - 1)),
         timers := Suc n + length cs\<rparr>"
      by (rule Cons.IH [OF False]) (simp_all add: ss')
    also have "\<dots> = ss\<lparr>cells := (cells ss)\<lparr>position :=
               foldl (\<lambda>p command. moveRobot_update env (action command) p)
                 (position (cells ss)) (c # cs),
             isExecuting := False\<rparr>,
         runs := [],
         executionRef := (if length (c # cs) = 1 then executionRef ss
                          else Some (n + length (c # cs) - 1)),
         timers := n + length (c # cs)\<rparr>"
      using False by (auto simp: ss')
    finally show ?thesis .
  qed
qed

text \<open>
  So the one-step \<open>executeCommands\<close> is what a call from the render of the current
  state comes to when no other run is in flight and its timers fire undisturbed.
\<close>

lemma executeCommands_call_completes:
  assumes "runs ss = []"
  shows "cells (fire [timers ss ..< timers ss + length (commands (cells ss))]
            (executeCommands_call (cells ss) ss)) = executeCommands (cells ss)
    \<and> runs (fire [timers ss ..< timers ss + length (commands (cells ss))]
            (executeCommands_call (cells ss) ss)) = []"
proof (cases "isExecuting (cells ss) \<or> commands (cells ss) = []")
  case True
  then have same: "executeCommands_call (cells ss) ss = ss"
    by (rule executeCommands_call_guard)
  have "fire ts ss = ss" for ts
    by (induction ts) (simp_all add: timeout_fires_def assms)
  then show ?thesis
    using True assms by (simp add: same executeCommands_guard)
next
  case False
  define ss1 where "ss1 = executeCommands_call (cells ss) ss"
  have r: "runs ss1 = [\<lparr>timer = timers ss, todo = commands (cells ss),
      run_env = currentEnvironment (cells ss)\<rparr>]"
    and t: "timers ss1 = Suc (timers ss)"
    and c: "cells ss1 = (cells ss)\<lparr>isExecuting := True\<rparr>"
    using False assms by (simp_all add: ss1_def executeCommands_call_def)
  from False have ne: "commands (cells ss) \<noteq> []" by simp
  show ?thesis
    unfolding ss1_def [symmetric] fire_single_run [OF ne r t]
    using False by (simp add: c executeCommands_def foldl_moveRobot)
qed

text \<open>
  When every handler belongs to the render of the current state, at most one run is in
  flight, and \<open>isExecuting\<close> holds exactly while one is.
\<close>

lemma fresh_renders_one_run:
  assumes "fresh_renders ss"
  shows "(runs ss = [] \<and> \<not> isExecuting (cells ss))
    \<or> (\<exists>r. runs ss = [r] \<and> isExecuting (cells ss)
          \<and> executionRef ss = Some (timer r) \<and> todo r \<noteq> [])"
  using assms
proof (induction rule: fresh_renders.induct)
  case (start s)
  then show ?case by simp
next
  case (execute ss)
  then consider (idle) "runs ss = []" "\<not> isExecuting (cells ss)"
    | (busy) r where "runs ss = [r]" "isExecuting (cells ss)"
        "executionRef ss = Some (timer r)" "todo r \<noteq> []"
    by blast
  then show ?case
  proof cases
    case idle
    then show ?thesis by (simp add: executeCommands_call_def)
  next
    case busy
    then show ?thesis by (simp add: executeCommands_call_def)
  qed
next
  case (timeout ss t)
  then consider (idle) "runs ss = []" "\<not> isExecuting (cells ss)"
    | (busy) r where "runs ss = [r]" "isExecuting (cells ss)"
        "executionRef ss = Some (timer r)" "todo r \<noteq> []"
    by blast
  then show ?case
  proof cases
    case idle
    then show ?thesis by (simp add: timeout_fires_def)
  next
    case busy
    from busy(4) obtain c rest where todo: "todo r = c # rest"
      by (cases "todo r") simp_all
    show ?thesis
    proof (cases "timer r = t")
      case True
      then show ?thesis
        using busy todo by (cases "rest = []") (simp_all add: timeout_fires_def Let_def)
    next
      case False
      then show ?thesis
        using busy by (simp add: timeout_fires_def)
    qed
  qed
next
  case (reset ss screenWidth)
  then consider (idle) "runs ss = []" "\<not> isExecuting (cells ss)"
    | (busy) r where "runs ss = [r]" "isExecuting (cells ss)"
        "executionRef ss = Some (timer r)" "todo r \<noteq> []"
    by blast
  then show ?case
  proof cases
    case idle
    then show ?thesis
      by (simp add: resetRobot_call_def resetRobot_def clearTimeout_def split: option.split)
  next
    case busy
    then show ?thesis
      by (simp add: resetRobot_call_def resetRobot_def clearTimeout_def)
  qed
next
  case (clear ss)
  then consider (idle) "runs ss = []" "\<not> isExecuting (cells ss)"
    | (busy) r where "runs ss = [r]" "isExecuting (cells ss)"
        "executionRef ss = Some (timer r)" "todo r \<noteq> []"
    by blast
  then show ?case
  proof cases
    case idle
    then show ?thesis
      by (simp add: clearCommands_call_def clearCommands_def clearTimeout_def split: option.split)
  next
    case busy
    then show ?thesis
      by (simp add: clearCommands_call_def clearCommands_def clearTimeout_def)
  qed
next
  case (load ss screenWidth program)
  then consider (idle) "runs ss = []" "\<not> isExecuting (cells ss)"
    | (busy) r where "runs ss = [r]" "isExecuting (cells ss)"
        "executionRef ss = Some (timer r)" "todo r \<noteq> []"
    by blast
  then show ?case
  proof cases
    case idle
    then show ?thesis
      by (simp add: loadProgram_call_def loadProgram_def resetRobot_def clearTimeout_def Let_def
          split: option.split)
  next
    case busy
    then show ?thesis
      by (simp add: loadProgram_call_def loadProgram_def resetRobot_def clearTimeout_def Let_def
          split: option.split)
  qed
next
  case (select ss screenWidth env)
  then consider (idle) "runs ss = []" "\<not> isExecuting (cells ss)"
    | (busy) r where "runs ss = [r]" "isExecuting (cells ss)"
        "executionRef ss = Some (timer r)" "todo r \<noteq> []"
    by blast
  then show ?case
  proof cases
    case idle
    then show ?thesis
      by (simp add: selectEnvironment_call_def resetRobot_call_def resetRobot_def
          clearTimeout_def split: option.split)
  next
    case busy
    then show ?thesis
      by (simp add: selectEnvironment_call_def resetRobot_call_def resetRobot_def
          clearTimeout_def)
  qed
next
  case (add ss newCommand)
  then show ?case by (simp add: addCommand_call_def)
next
  case (jog ss a)
  then show ?case by (simp add: moveRobot_def)
qed


subsection \<open>Reset and load\<close>

text \<open>
  Claim C7. \<open>resetRobot\<close> puts the pose at the centre of the canvas with heading 0 and
  sets \<open>isExecuting\<close> to false; the queue is the one it was given.
\<close>

theorem resetRobot_effect:
  "position (resetRobot screenWidth s) =
      \<lparr>px = CANVAS_WIDTH screenWidth / 2, py = CANVAS_HEIGHT / 2, angle = 0\<rparr>
   \<and> isExecuting (resetRobot screenWidth s) = False
   \<and> commands (resetRobot screenWidth s) = commands s"
  by (simp add: resetRobot_def)

text \<open>On the session above, after the reset the robot is at \<open>(200, 200)\<close>, heading 0.\<close>

theorem resetRobot_effect_witness:
  "position (resetRobot 432 (executeCommands demo_store)) = \<lparr>px = 200, py = 200, angle = 0\<rparr>
   \<and> isExecuting (resetRobot 432 (demo_store\<lparr>isExecuting := True\<rparr>)) = False
   \<and> commands (resetRobot 432 demo_store) = demo_queue"
  using resetRobot_effect [of 432 "executeCommands demo_store"]
    resetRobot_effect [of 432 "demo_store\<lparr>isExecuting := True\<rparr>"]
    resetRobot_effect [of 432 demo_store]
  by (simp add: CANVAS_WIDTH_def CANVAS_HEIGHT_def demo_store_def)

text \<open>
  Claim C8, as stated, fails: loading a program whose environment \<open>nonexistent\<close> is not
  in the catalog does not fail. The load goes through: it reports success, and the queue
  of the session is replaced by the (empty) queue of the program.
\<close>

theorem loadProgram_no_failure_counterexample:
  "prog_environment demo_program \<notin> set (map name (ENVIRONMENTS 432))
   \<and> alerts (loadProgram 432 demo_program demo_store) = [(''Success'', ''Loaded program: demo'')]
   \<and> commands (loadProgram 432 demo_program demo_store) = []
   \<and> commands demo_store \<noteq> []"
  by (simp add: loadProgram_def resetRobot_def ENVIRONMENTS_def demo_program_def
      demo_store_def demo_queue_def Let_def)

text \<open>
  Claim C8, amended. Loading a program whose environment name is not in the catalog
  raises no error: the active environment stays as it was, while the queue becomes the
  program's, the pose is reset, \<open>isExecuting\<close> is false and a success alert is shown.
\<close>

theorem loadProgram_unknown_environment:
  assumes "find (\<lambda>e. name e = prog_environment program) (ENVIRONMENTS screenWidth) = None"
  shows "currentEnvironment (loadProgram screenWidth program s) = currentEnvironment s
    \<and> commands (loadProgram screenWidth program s) = prog_commands program
    \<and> position (loadProgram screenWidth program s) =
        \<lparr>px = CANVAS_WIDTH screenWidth / 2, py = CANVAS_HEIGHT / 2, angle = 0\<rparr>
    \<and> isExecuting (loadProgram screenWidth program s) = False
    \<and> alerts (loadProgram screenWidth program s) =
        alerts s @ [(''Success'', ''Loaded program: '' @ prog_name program)]"
  using assms by (simp add: loadProgram_def resetRobot_def Let_def)

theorem loadProgram_unknown_environment_witness:
  "find (\<lambda>e. name e = prog_environment demo_program) (ENVIRONMENTS 432) = None
   \<and> currentEnvironment (loadProgram 432 demo_program demo_store) = currentEnvironment demo_store
   \<and> position (loadProgram 432 demo_program demo_store) = \<lparr>px = 200, py = 200, angle = 0\<rparr>"
  using loadProgram_unknown_environment [of demo_program 432 demo_store]
  by (simp add: ENVIRONMENTS_def demo_program_def CANVAS_WIDTH_def CANVAS_HEIGHT_def)

end
